theory Spec2Isabelle
  imports Main "HOL-Library.Sublist"
begin

section \<open>Python values, steps and errors\<close>

text \<open>
  The development embeds \<^verbatim>\<open>mrjob/tools/spark_submit.py\<close>. Attribute values of the parsed
  options and keyword arguments of the runner are Python objects; the ones the tool handles
  are \<^verbatim>\<open>None\<close>, booleans, strings, lists of strings and the list of steps. A step is one of
  the two classes the tool instantiates, \<^verbatim>\<open>SparkJarStep(args, jar, main_class, spark_args)\<close>
  and \<^verbatim>\<open>SparkScriptStep(args, script, spark_args)\<close>; \<^verbatim>\<open>step.description()\<close> (module
  \<^verbatim>\<open>mrjob.step\<close>) is kept as the step itself.
\<close>

datatype pyval = PNone | PBool bool | PStr string | PList "string list" | PSteps "step list"
and step =
    SparkJarStep pyval string pyval "string list"
  | SparkScriptStep pyval string "string list"

text \<open>Truth value of an object, as \<^verbatim>\<open>or\<close>, \<^verbatim>\<open>and\<close>, \<^verbatim>\<open>not\<close> and \<^verbatim>\<open>if\<close> take it.\<close>

fun truthy :: "pyval \<Rightarrow> bool" where
  "truthy PNone = False"
| "truthy (PBool b) = b"
| "truthy (PStr s) = (s \<noteq> [])"
| "truthy (PList xs) = (xs \<noteq> [])"
| "truthy (PSteps xs) = (xs \<noteq> [])"

text \<open>
  A usage error is what \<^verbatim>\<open>ArgumentParser.error\<close> reports: the usage text goes to standard
  error and the process exits with status 2.
\<close>

datatype usage =
    ExpectedOneArgument string
  | InvalidChoice string string
  | UnrecognizedArguments "string list"
  | RequiredArgument string

datatype error =
    ValueError string
  | KeyError string
  | AttributeError string
  | ArgumentError string
  | IndexError
  | UsageError usage

definition bind_err :: "error + 'a \<Rightarrow> ('a \<Rightarrow> error + 'b) \<Rightarrow> error + 'b" where
  "bind_err m f = (case m of Inl e \<Rightarrow> Inl e | Inr x \<Rightarrow> f x)"

fun foldM :: "('a \<Rightarrow> 's \<Rightarrow> error + 's) \<Rightarrow> 'a list \<Rightarrow> 's \<Rightarrow> error + 's" where
  "foldM f [] s = Inr s"
| "foldM f (x # xs) s = bind_err (f x s) (foldM f xs)"

section \<open>Dictionaries and strings\<close>

text \<open>
  A module-level table is an association list in the order of the source; \<^verbatim>\<open>d[k]\<close> raises
  \<^verbatim>\<open>KeyError\<close> on a missing key. A dictionary that the code builds and updates (keyword
  arguments, the namespace of parsed options) is a map: \<^verbatim>\<open>d[k] = v\<close> is \<open>d(k \<mapsto> v)\<close> and
  \<^verbatim>\<open>d.update(e)\<close> is \<open>d ++ e\<close>.
\<close>

definition getitem :: "(string \<times> 'v) list \<Rightarrow> string \<Rightarrow> error + 'v" where
  "getitem d k = (case map_of d k of None \<Rightarrow> Inl (KeyError k) | Some v \<Rightarrow> Inr v)"

text \<open>
  \<^verbatim>\<open>str.lower\<close> on the letters that matter to the suffix tests: the ASCII capitals. A
  character outside \<^verbatim>\<open>A-Z\<close> is left as it is (the strings of the model are byte strings).
\<close>

definition lower_char :: "char \<Rightarrow> char" where
  "lower_char c =
     (case map_of (zip ''ABCDEFGHIJKLMNOPQRSTUVWXYZ'' ''abcdefghijklmnopqrstuvwxyz'') c of
        Some l \<Rightarrow> l
      | None \<Rightarrow> c)"

definition lower :: "string \<Rightarrow> string" where
  "lower s = map lower_char s"

definition endswith :: "string \<Rightarrow> string \<Rightarrow> bool" where
  "endswith s suf = (length suf \<le> length s \<and> drop (length s - length suf) s = suf)"

definition startswith :: "string \<Rightarrow> string \<Rightarrow> bool" where
  "startswith s pre = (take (length pre) s = pre)"

text \<open>\<^verbatim>\<open>s.split(sep)\<close> for a one-character separator: the pieces between the separators.\<close>

fun split :: "string \<Rightarrow> char \<Rightarrow> string list" where
  "split [] sep = [[]]"
| "split (c # cs) sep =
     (if c = sep then [] # split cs sep
      else (case split cs sep of [] \<Rightarrow> [[c]] | piece # pieces \<Rightarrow> (c # piece) # pieces))"

text \<open>\<^verbatim>\<open>xs[-1]\<close>: the last item, \<^verbatim>\<open>IndexError\<close> on an empty list.\<close>

fun last_item :: "'a list \<Rightarrow> 'a option" where
  "last_item [] = None"
| "last_item [x] = Some x"
| "last_item (x # y # ys) = last_item (y # ys)"

section \<open>The option registry\<close>

definition SPARK_RUNNERS :: "string list" where
  "SPARK_RUNNERS = [''emr'', ''hadoop'']"

definition DEFAULT_RUNNER :: string where
  "DEFAULT_RUNNER = ''hadoop''"

definition SPARK_SUBMIT_ARG_GROUPS :: "(string option \<times> string list) list" where
  "SPARK_SUBMIT_ARG_GROUPS = [
    (None, [
      ''spark_deploy_mode'',
      ''main_class'',
      ''name'',
      ''libjars'',
      ''packages'',
      ''exclude_packages'',
      ''repositories'',
      ''py_files'',
      ''upload_files'',
      ''cmdenv'',
      ''jobconf'',
      ''properties_file'',
      ''driver_memory'',
      ''driver_java_options'',
      ''driver_library_path'',
      ''driver_class_path'',
      ''executor_memory'',
      ''proxy_user'']),
    (Some ''Hadoop runner only'', [
      ''spark_master'']),
    (Some ''Cluster deploy mode only'', [
      ''driver_cores'']),
    (Some ''Spark standalone or Mesos with cluster deploy mode only'', [
      ''supervise'']),
    (Some ''Spark standalone and Mesos only'', [
      ''total_executor_cores'']),
    (Some ''Spark standalone and YARN only'', [
      ''executor_cores'']),
    (Some ''YARN-only'', [
      ''queue_name'',
      ''num_executors'',
      ''upload_archives'',
      ''upload_dirs'',
      ''principal'',
      ''keytab''])]"

definition SPARK_SUBMIT_ARG_HELP :: "(string \<times> string) list" where
  \<open>SPARK_SUBMIT_ARG_HELP = [
    (''cmdenv'', ''Arbitrary environment variable to set inside Spark, in the format NAME=VALUE.''),
    (''driver_class_path'', ''Extra class path entries to pass to the driver. Note that jars added with --jars are automatically included in the classpath.''),
    (''driver_cores'', ''Number of cores used by the driver (Default: 1).''),
    (''driver_java_options'', ''Extra Java options to pass to the driver.''),
    (''driver_library_path'', ''Extra library path entries to pass to the driver.''),
    (''driver_memory'', ''Memory for driver (e.g. 1000M, 2G) (Default: 1024M).''),
    (''exclude_packages'', ''Comma-separated list of groupId:artifactId, to exclude while resolving the dependencies provided in --packages to avoid dependency conflicts.''),
    (''executor_cores'', ''Number of cores per executor. (Default: 1 in YARN mode, or all available cores on the worker in standalone mode)''),
    (''executor_memory'', ''Memory per executor (e.g. 1000M, 2G) (Default: 1G).''),
    (''jobconf'', ''Arbitrary Spark configuration property, in the format PROP=VALUE.''),
    (''keytab'', ''The full path to the file that contains the keytab for the principal specified above. This keytab will be copied to the node running the Application Master via the Secure Distributed Cache, for renewing the login tickets and the delegation tokens periodically.''),
    (''libjars'', ''Comma-separated list of jars to include on the driverand executor classpaths.''),
    (''main_class'', ''Your application's main class (for Java / Scala apps).''),
    (''name'', ''The name of your application.''),
    (''num_executors'', ''Number of executors to launch (Default: 2). If dynamic allocation is enabled, the initial number of executors will be at least NUM.''),
    (''packages'', ''Comma-separated list of maven coordinates of jars to include on the driver and executor classpaths. Will search the local maven repo, then maven central and any additional remote repositories given by --repositories. The format for the coordinates should be groupId:artifactId:version.''),
    (''principal'', ''Principal to be used to login to KDC, while running onsecure HDFS.''),
    (''properties_file'', ''Path to a file from which to load extra properties. If not specified, this will look for conf/spark-defaults.conf.''),
    (''proxy_user'', ''User to impersonate when submitting the application. This argument does not work with --principal / --keytab.''),
    (''py_files'', ''Comma-separated list of .zip, .egg, or .py files to placeon the PYTHONPATH for Python apps.''),
    (''queue_name'', ''The YARN queue to submit to (Default: "default").''),
    (''repositories'', ''Comma-separated list of additional remote repositories to search for the maven coordinates given with --packages.''),
    (''spark_deploy_mode'', ''Whether to launch the driver program locally ("client") or on one of the worker machines inside the cluster ("cluster") (Default: client).''),
    (''spark_master'', ''spark://host:port, mesos://host:port, yarn,k8s://https://host:port, or local (Default: yarn).''),
    (''supervise'', ''If given, restarts the driver on failure.''),
    (''total_executor_cores'', ''Total cores for all executors.''),
    (''upload_archives'', ''Comma-separated list of archives to be extracted into the working directory of each executor.''),
    (''upload_dirs'', ''Comma-separated list of directors to be archived and then extracted into the working directory of each executor.''),
    (''upload_files'', ''Comma-separated list of files to be placed in the working directory of each executor. File paths of these files in executors can be accessed via SparkFiles.get(fileName).'')]\<close>

definition SPARK_SUBMIT_OPT_NAMES :: "string set" where
  "SPARK_SUBMIT_OPT_NAMES = set (concat (map snd SPARK_SUBMIT_ARG_GROUPS))"

definition SPARK_SUBMIT_SWITCHES :: "(string \<times> string) list" where
  "SPARK_SUBMIT_SWITCHES = [
    (''cmdenv'', ''--cmdenv''),
    (''driver_class_path'', ''--driver-class-path''),
    (''driver_cores'', ''--driver-cores''),
    (''driver_java_options'', ''--driver-java-options''),
    (''driver_library_path'', ''--driver-library-path''),
    (''driver_memory'', ''--driver-memory''),
    (''exclude_packages'', ''--exclude-packages''),
    (''executor_cores'', ''--executor-cores''),
    (''executor_memory'', ''--executor-memory''),
    (''jobconf'', ''--conf''),
    (''keytab'', ''--keytab''),
    (''libjars'', ''--jars''),
    (''main_class'', ''--class''),
    (''name'', ''--name''),
    (''num_executors'', ''--num-executors''),
    (''packages'', ''--packages''),
    (''principal'', ''--principal''),
    (''properties_file'', ''--properties-file''),
    (''proxy_user'', ''--proxy-user''),
    (''py_files'', ''--py-files''),
    (''queue_name'', ''--queue''),
    (''repositories'', ''--repositories''),
    (''spark_deploy_mode'', ''--deploy-mode''),
    (''spark_master'', ''--master''),
    (''supervise'', ''--supervise''),
    (''total_executor_cores'', ''--total-executor-cores''),
    (''upload_archives'', ''--archives''),
    (''upload_dirs'', ''--dirs''),
    (''upload_files'', ''--files'')]"

text \<open>
  Keyword arguments of \<^verbatim>\<open>add_argument\<close> are a dictionary from keyword to a string
  (\<^verbatim>\<open>dest\<close>, \<^verbatim>\<open>action\<close>, \<^verbatim>\<open>nargs\<close>, \<^verbatim>\<open>help\<close>) or a tuple of strings (\<^verbatim>\<open>choices\<close>).
\<close>

datatype kwval = KStr string | KTuple "string list"

type_synonym kwargs = "string \<rightharpoonup> kwval"

definition SPARK_SUBMIT_ARG_KWARGS :: "(string \<times> kwargs) list" where
  "SPARK_SUBMIT_ARG_KWARGS = [(''supervise'', [''action'' \<mapsto> KStr ''store_true''])]"

definition STEP_OPT_NAMES :: "string set" where
  "STEP_OPT_NAMES = {''main_class''}"

text \<open>
  The table \<^verbatim>\<open>_RUNNER_OPTS\<close> of \<^verbatim>\<open>mrjob.options\<close> is not among the sources, so it is a
  parameter \<open>ro\<close> of everything that reads it: for each runner option name the value of the
  \<^verbatim>\<open>'switches'\<close> key of its entry, a list of (option strings, keyword arguments) pairs, or
  \<open>None\<close> when the entry has no such key.
\<close>

type_synonym switches = "(string list \<times> kwargs) list"

type_synonym runner_opts = "(string \<times> switches option) list"

definition SPARK_ARG_OPT_NAMES :: "runner_opts \<Rightarrow> string set" where
  "SPARK_ARG_OPT_NAMES ro =
     set (map fst SPARK_SUBMIT_SWITCHES) - set (map fst ro) - STEP_OPT_NAMES"

definition SWITCH_ALIASES :: "(string \<times> string) list" where
  "SWITCH_ALIASES = [
    (''--master'', ''--spark-master''),
    (''--deploy-mode'', ''--spark-deploy-mode''),
    (''--jars'', ''--libjars''),
    (''--conf'', ''--jobconf'')]"

definition HARD_CODED_OPTS :: "(string \<times> pyval) list" where
  "HARD_CODED_OPTS = [(''check_input_paths'', PBool False), (''output_dir'', PNone)]"

section \<open>The argument parser\<close>

text \<open>
  A parser is the list of the \<^verbatim>\<open>add_argument\<close> calls made on it, in order: the option
  strings (none for a positional argument) and the keyword arguments. \<^verbatim>\<open>add_argument\<close>
  raises \<^verbatim>\<open>ArgumentError\<close> (conflicting option string) when one of the option strings is
  already registered.
\<close>

type_synonym argument = "string list \<times> kwargs"

type_synonym parser = "argument list"

definition option_strings :: "parser \<Rightarrow> string list" where
  "option_strings p = concat (map fst p)"

definition add_argument :: "parser \<Rightarrow> string list \<Rightarrow> kwargs \<Rightarrow> error + parser" where
  "add_argument p strs kw =
     (case filter (\<lambda>s. s \<in> set (option_strings p)) strs of
        [] \<Rightarrow> Inr (p @ [(strs, kw)])
      | s # _ \<Rightarrow> Inl (ArgumentError s))"

text \<open>\<^verbatim>\<open>_RUNNER_OPTS[opt_name]['switches']\<close>, with the two possible key errors.\<close>

definition runner_switches :: "runner_opts \<Rightarrow> string \<Rightarrow> error + switches" where
  "runner_switches ro opt_name =
     bind_err (getitem ro opt_name)
       (\<lambda>entry. case entry of None \<Rightarrow> Inl (KeyError ''switches'') | Some sw \<Rightarrow> Inr sw)"

definition add_spark_submit_arg :: "runner_opts \<Rightarrow> parser \<Rightarrow> string \<Rightarrow> error + parser" where
  "add_spark_submit_arg ro parser opt_name =
     bind_err (getitem SPARK_SUBMIT_SWITCHES opt_name) (\<lambda>opt_string.
     bind_err
       (if opt_name \<in> set (map fst ro) then
          (let opt_alias = (case map_of SWITCH_ALIASES opt_string of
                              Some a \<Rightarrow> a | None \<Rightarrow> opt_string)
           in bind_err (runner_switches ro opt_name) (\<lambda>sw.
                Inr (fold (\<lambda>(opt_strings, opt_kwargs) kwargs.
                             if opt_alias \<in> set opt_strings
                             then kwargs ++ opt_kwargs else kwargs)
                       sw [''dest'' \<mapsto> KStr opt_name])))
        else Inr [''dest'' \<mapsto> KStr opt_name]) (\<lambda>kwargs.
     bind_err (getitem SPARK_SUBMIT_ARG_HELP opt_name) (\<lambda>help.
       add_argument parser [opt_string]
         (kwargs(''help'' \<mapsto> KStr help) ++
            (case map_of SPARK_SUBMIT_ARG_KWARGS opt_name of
               Some kw \<Rightarrow> kw | None \<Rightarrow> Map.empty)))))"

definition add_runner_alias_arg :: "parser \<Rightarrow> error + parser" where
  \<open>add_runner_alias_arg parser =
     add_argument parser [''-r'', ''--runner'']
       [''dest'' \<mapsto> KStr ''runner'',
        ''choices'' \<mapsto> KTuple SPARK_RUNNERS,
        ''help'' \<mapsto> KStr (''Where to run the job (default: "'' @ DEFAULT_RUNNER @ ''")'')]\<close>

definition add_help_arg :: "parser \<Rightarrow> error + parser" where
  "add_help_arg parser =
     add_argument parser [''-h'', ''--help'']
       [''dest'' \<mapsto> KStr ''help'',
        ''action'' \<mapsto> KStr ''store_true'',
        ''help'' \<mapsto> KStr ''show this message and exit'']"

definition add_deprecated_arg :: "parser \<Rightarrow> error + parser" where
  "add_deprecated_arg parser =
     add_argument parser [''--deprecated'']
       [''dest'' \<mapsto> KStr ''deprecated'',
        ''action'' \<mapsto> KStr ''store_true'',
        ''help'' \<mapsto> KStr ''include help for deprecated options'']"

text \<open>
  Modelled from the spec: \<^verbatim>\<open>mrjob.options._add_basic_args\<close> is not among the sources. It
  registers the adapter-level verbosity switches of section 4.3; the \<^verbatim>\<open>add_argument\<close> calls
  it makes are the parameter \<open>basic\<close>.
\<close>

definition add_basic_args :: "argument list \<Rightarrow> parser \<Rightarrow> error + parser" where
  "add_basic_args basic parser = foldM (\<lambda>(strs, kw) p. add_argument p strs kw) basic parser"

text \<open>
  Modelled from the spec: \<^verbatim>\<open>mrjob.options._add_runner_args\<close> is not among the sources. Per
  sections 4.1 and 4.3 it registers, for every named option of the runner table, the switches
  the table declares for it, all with the option name as destination key.
\<close>

definition add_runner_args_for_opt :: "string \<times> switches option \<Rightarrow> parser \<Rightarrow> error + parser" where
  "add_runner_args_for_opt entry parser =
     foldM (\<lambda>(strs, kw) p. add_argument p strs (kw(''dest'' \<mapsto> KStr (fst entry))))
       (case snd entry of None \<Rightarrow> [] | Some sw \<Rightarrow> sw) parser"

definition add_runner_args :: "runner_opts \<Rightarrow> parser \<Rightarrow> string set \<Rightarrow> error + parser" where
  "add_runner_args ro parser opt_names =
     foldM add_runner_args_for_opt (filter (\<lambda>entry. fst entry \<in> opt_names) ro) parser"

definition make_arg_parser :: "argument list \<Rightarrow> runner_opts \<Rightarrow> error + parser" where
  "make_arg_parser basic ro =
     bind_err (add_argument [] [] [''dest'' \<mapsto> KStr ''script_or_jar'', ''nargs'' \<mapsto> KStr ''?'']) (\<lambda>p1.
     bind_err (add_argument p1 [] [''dest'' \<mapsto> KStr ''args'', ''nargs'' \<mapsto> KStr ''*'']) (\<lambda>p2.
     bind_err (add_basic_args basic p2) (\<lambda>p3.
     bind_err (add_runner_alias_arg p3) (\<lambda>p4.
     bind_err (add_help_arg p4) (\<lambda>p5.
     bind_err (add_deprecated_arg p5) (\<lambda>p6.
     bind_err (add_runner_args ro p6 (set (map fst ro) - set (map fst HARD_CODED_OPTS))) (\<lambda>p7.
       foldM (\<lambda>(opt_name, switch) p.
                if opt_name \<in> set (map fst ro) \<and> switch \<notin> set (map fst SWITCH_ALIASES)
                then Inr p else add_spark_submit_arg ro p opt_name)
         SPARK_SUBMIT_SWITCHES p7)))))))"

section \<open>The two parses\<close>

text \<open>
  \<^verbatim>\<open>argparse\<close> is the parsing substrate. The model covers command lines whose switches are
  written out in full, each value a token of its own: a token that is a registered option
  string starts an occurrence of that argument, which takes no value (a flag action) or the
  next token (which must not look like a switch); any other token that looks like a switch
  is unrecognized; the remaining tokens are positional. Abbreviated switches, the
  \<^verbatim>\<open>--switch=value\<close> form and the \<^verbatim>\<open>--\<close> separator are outside the model.
\<close>

definition dest_of :: "argument \<Rightarrow> string" where
  "dest_of a = (case snd a ''dest'' of Some (KStr d) \<Rightarrow> d | _ \<Rightarrow> [])"

definition action_of :: "argument \<Rightarrow> string" where
  "action_of a = (case snd a ''action'' of Some (KStr act) \<Rightarrow> act | _ \<Rightarrow> ''store'')"

definition choices_of :: "argument \<Rightarrow> string list option" where
  "choices_of a = (case snd a ''choices'' of Some (KTuple cs) \<Rightarrow> Some cs | _ \<Rightarrow> None)"

definition is_flag :: "argument \<Rightarrow> bool" where
  "is_flag a = (action_of a \<in> set [''store_true'', ''store_false''])"

definition switch_like :: "string \<Rightarrow> bool" where
  "switch_like t = (case t of c # _ # _ \<Rightarrow> c = CHR ''-'' | _ \<Rightarrow> False)"

definition lookup_switch :: "parser \<Rightarrow> string \<Rightarrow> argument option" where
  "lookup_switch p t = find (\<lambda>a. t \<in> set (fst a)) p"

datatype occurrence =
    Switch argument string "string list"
  | Missing string
  | Unknown string
  | Positional string

fun scan :: "parser \<Rightarrow> string list \<Rightarrow> occurrence list" where
  "scan p [] = []"
| "scan p (t # ts) =
     (case lookup_switch p t of
        None \<Rightarrow> (if switch_like t then Unknown t else Positional t) # scan p ts
      | Some a \<Rightarrow>
          if is_flag a then Switch a t [] # scan p ts
          else (case ts of
                  [] \<Rightarrow> [Missing t]
                | v # ts' \<Rightarrow>
                    if switch_like v then Missing t # scan p ts
                    else Switch a t [v] # scan p ts'))"

text \<open>The conventional pass: \<^verbatim>\<open>parser.parse_args\<close>, giving the namespace of typed values.\<close>

type_synonym namespace = "string \<rightharpoonup> pyval"

definition default_of :: "argument \<Rightarrow> pyval" where
  "default_of a =
     (if action_of a = ''store_true'' then PBool False
      else if action_of a = ''store_false'' then PBool True
      else if fst a = [] \<and> snd a ''nargs'' = Some (KStr ''*'') then PList []
      else PNone)"

definition defaults :: "parser \<Rightarrow> namespace" where
  "defaults p =
     fold (\<lambda>a ns. if ns (dest_of a) = None then ns(dest_of a \<mapsto> default_of a) else ns)
       p Map.empty"

definition apply_action :: "argument \<Rightarrow> string list \<Rightarrow> namespace \<Rightarrow> namespace" where
  "apply_action a vs ns =
     (if action_of a = ''store_true'' then ns(dest_of a \<mapsto> PBool True)
      else if action_of a = ''store_false'' then ns(dest_of a \<mapsto> PBool False)
      else if action_of a = ''append'' then
        ns(dest_of a \<mapsto> PList ((case ns (dest_of a) of Some (PList old) \<Rightarrow> old | _ \<Rightarrow> []) @ vs))
      else (case vs of [v] \<Rightarrow> ns(dest_of a \<mapsto> PStr v) | _ \<Rightarrow> ns))"

definition bad_choices :: "argument \<Rightarrow> string list \<Rightarrow> string list" where
  "bad_choices a vs =
     (case choices_of a of None \<Rightarrow> [] | Some cs \<Rightarrow> filter (\<lambda>v. v \<notin> set cs) vs)"

fun run_actions :: "occurrence list \<Rightarrow> namespace \<Rightarrow> error + namespace" where
  "run_actions [] ns = Inr ns"
| "run_actions (Switch a t vs # os) ns =
     (case bad_choices a vs of
        [] \<Rightarrow> run_actions os (apply_action a vs ns)
      | v # _ \<Rightarrow> Inl (UsageError (InvalidChoice (dest_of a) v)))"
| "run_actions (Missing t # os) ns = Inl (UsageError (ExpectedOneArgument t))"
| "run_actions (Unknown t # os) ns = run_actions os ns"
| "run_actions (Positional t # os) ns = run_actions os ns"

fun assign_positionals :: "argument list \<Rightarrow> string list \<Rightarrow> namespace \<Rightarrow> error + namespace" where
  "assign_positionals [] [] ns = Inr ns"
| "assign_positionals [] (t # ts) ns = Inl (UsageError (UnrecognizedArguments (t # ts)))"
| "assign_positionals (a # as) ts ns =
     (if snd a ''nargs'' = Some (KStr ''*'')
      then assign_positionals as [] (ns(dest_of a \<mapsto> PList ts))
      else (case ts of
              [] \<Rightarrow> if snd a ''nargs'' = Some (KStr ''?'')
                    then assign_positionals as [] ns
                    else Inl (UsageError (RequiredArgument (dest_of a)))
            | t # ts' \<Rightarrow> assign_positionals as ts' (ns(dest_of a \<mapsto> PStr t))))"

fun unknowns :: "occurrence list \<Rightarrow> string list" where
  "unknowns [] = []"
| "unknowns (Unknown t # os) = t # unknowns os"
| "unknowns (_ # os) = unknowns os"

fun positionals :: "occurrence list \<Rightarrow> string list" where
  "positionals [] = []"
| "positionals (Positional t # os) = t # positionals os"
| "positionals (_ # os) = positionals os"

definition parse_args :: "parser \<Rightarrow> string list \<Rightarrow> error + namespace" where
  "parse_args p cl_args =
     (let occ = scan p cl_args in
      bind_err (run_actions occ (defaults p)) (\<lambda>ns.
        case unknowns occ of
          [] \<Rightarrow> assign_positionals (filter (\<lambda>a. fst a = []) p) (positionals occ) ns
        | u # us \<Rightarrow> Inl (UsageError (UnrecognizedArguments (u # us)))))"

text \<open>
  Modelled from the spec: \<^verbatim>\<open>mrjob.options._parse_raw_args\<close> is not among the sources. Per
  section 4.4 it returns, for every switch occurrence in the token stream and in the order
  of the stream, the destination key, the switch as written and the value tokens that the
  switch consumed, with the arity rules of the conventional pass.
\<close>

fun records :: "occurrence list \<Rightarrow> (string \<times> string \<times> string list) list" where
  "records [] = []"
| "records (Switch a t vs # os) = (dest_of a, t, vs) # records os"
| "records (_ # os) = records os"

definition parse_raw_args :: "parser \<Rightarrow> string list \<Rightarrow> (string \<times> string \<times> string list) list" where
  "parse_raw_args p cl_args = records (scan p cl_args)"

section \<open>Building the step\<close>

definition get_spark_args :: "runner_opts \<Rightarrow> parser \<Rightarrow> string list \<Rightarrow> string list" where
  "get_spark_args ro parser cl_args =
     fold (\<lambda>(dest, option_string, args) spark_args.
             if dest \<in> SPARK_ARG_OPT_NAMES ro
             then (spark_args @ [option_string]) @ args
             else spark_args)
       (parse_raw_args parser cl_args) []"

text \<open>\<^verbatim>\<open>options.name\<close>: the attribute, or \<^verbatim>\<open>AttributeError\<close>.\<close>

definition attr :: "namespace \<Rightarrow> string \<Rightarrow> error + pyval" where
  "attr options name' =
     (case options name' of None \<Rightarrow> Inl (AttributeError name') | Some v \<Rightarrow> Inr v)"

definition get_step :: "runner_opts \<Rightarrow> namespace \<Rightarrow> parser \<Rightarrow> string list \<Rightarrow> error + step" where
  "get_step ro options parser cl_args =
     bind_err (attr options ''args'') (\<lambda>args.
     bind_err (attr options ''main_class'') (\<lambda>main_class.
     let spark_args = get_spark_args ro parser cl_args in
     bind_err (attr options ''script_or_jar'') (\<lambda>script_or_jar.
       case script_or_jar of
         PStr path \<Rightarrow>
           if endswith (lower path) ''.jar'' then
             Inr (SparkJarStep args path main_class spark_args)
           else (case last_item (split (lower path) CHR ''.'') of
                   None \<Rightarrow> Inl IndexError
                 | Some ext \<Rightarrow>
                     if startswith ext ''py'' then
                       Inr (SparkScriptStep args path spark_args)
                     else Inl (ValueError (path @ '' appears not to be a JAR or Python script'')))
       | _ \<Rightarrow> Inl (AttributeError ''lower''))))"

section \<open>Help and dispatch\<close>

text \<open>
  What the tool prints before \<^verbatim>\<open>sys.exit(0)\<close>: the help of a parser built for that
  purpose only (its rendering is \<^verbatim>\<open>argparse\<close>'s), followed, for the basic help without
  deprecated options, by the hint \<^verbatim>\<open>_DEPRECATED_OPT_HELP\<close>.
\<close>

datatype printed = BasicHelp parser bool | RunnerHelp parser bool

datatype outcome = SysExit nat printed | RunnerRun string "string \<rightharpoonup> pyval"

text \<open>
  Modelled from the spec: \<^verbatim>\<open>mrjob.runner._runner_class\<close> is not among the sources. Per
  section 4.2 it resolves an eligible alias to the backend implementation, which is
  identified here with its alias; the option names a backend declares (\<^verbatim>\<open>OPT_NAMES\<close>) are a
  parameter of \<open>main\<close>.
\<close>

definition runner_class :: "pyval \<Rightarrow> error + string" where
  "runner_class alias =
     (case alias of
        PStr a \<Rightarrow> if a \<in> set SPARK_RUNNERS then Inr a else Inl (ValueError a)
      | _ \<Rightarrow> Inl (ValueError []))"

definition make_basic_help_parser :: "argument list \<Rightarrow> runner_opts \<Rightarrow> bool \<Rightarrow> error + parser" where
  "make_basic_help_parser basic ro include_deprecated =
     bind_err (add_runner_alias_arg []) (\<lambda>p0.
       foldM (\<lambda>(group_desc, opt_names) p.
                bind_err (foldM (\<lambda>opt_name p'. add_spark_submit_arg ro p' opt_name) opt_names p) (\<lambda>p1.
                  if group_desc = None then
                    bind_err (add_basic_args basic p1) (\<lambda>p2.
                    bind_err (add_help_arg p2) (\<lambda>p3.
                      if include_deprecated then add_deprecated_arg p3 else Inr p3))
                  else Inr p1))
         SPARK_SUBMIT_ARG_GROUPS p0)"

definition print_basic_help :: "argument list \<Rightarrow> runner_opts \<Rightarrow> bool \<Rightarrow> error + printed" where
  "print_basic_help basic ro include_deprecated =
     bind_err (make_basic_help_parser basic ro include_deprecated)
       (\<lambda>help_parser. Inr (BasicHelp help_parser include_deprecated))"

definition print_help_for_runner :: "runner_opts \<Rightarrow> string set \<Rightarrow> bool \<Rightarrow> error + printed" where
  "print_help_for_runner ro opt_names include_deprecated =
     bind_err (add_runner_args ro [] (opt_names - set (map fst HARD_CODED_OPTS)))
       (\<lambda>help_parser. Inr (RunnerHelp help_parser include_deprecated))"

definition print_help ::
  "argument list \<Rightarrow> runner_opts \<Rightarrow> namespace \<Rightarrow> string set \<Rightarrow> error + printed" where
  "print_help basic ro options opt_names =
     bind_err (attr options ''help'') (\<lambda>help.
     bind_err (if truthy help then attr options ''runner'' else Inr help) (\<lambda>both.
     bind_err (attr options ''deprecated'') (\<lambda>deprecated.
       if truthy both then print_help_for_runner ro opt_names (truthy deprecated)
       else print_basic_help basic ro (truthy deprecated))))"

definition get_runner_opt_kwargs :: "namespace \<Rightarrow> string set \<Rightarrow> string \<rightharpoonup> pyval" where
  "get_runner_opt_kwargs options opt_names = options |` opt_names"

definition os_devnull :: string where
  "os_devnull = ''/dev/null''"

text \<open>
  \<open>main\<close> with the command line \<open>cl_args\<close> given (\<^verbatim>\<open>sys.argv[1:]\<close> when the caller passes
  \<^verbatim>\<open>None\<close>). \<^verbatim>\<open>MRJob.set_up_logging\<close> only reads the two verbosity attributes. The run ends
  where the runner is instantiated with its keyword arguments and started.
\<close>

definition main ::
  "argument list \<Rightarrow> runner_opts \<Rightarrow> (string \<Rightarrow> string set) \<Rightarrow> string list \<Rightarrow> error + outcome" where
  "main basic ro OPT_NAMES cl_args =
     bind_err (make_arg_parser basic ro) (\<lambda>parser.
     bind_err (parse_args parser cl_args) (\<lambda>options.
     bind_err (attr options ''runner'') (\<lambda>runner.
     bind_err (runner_class (if truthy runner then runner else PStr DEFAULT_RUNNER)) (\<lambda>rc.
     bind_err (attr options ''help'') (\<lambda>help.
     bind_err (if truthy help then Inr help else attr options ''script_or_jar'') (\<lambda>target.
       if truthy help \<or> \<not> truthy target then
         bind_err (print_help basic ro options (OPT_NAMES rc)) (\<lambda>out. Inr (SysExit 0 out))
       else
         bind_err (attr options ''quiet'') (\<lambda>quiet.
         bind_err (attr options ''verbose'') (\<lambda>verbose.
         let kwargs = get_runner_opt_kwargs options (OPT_NAMES rc);
             kwargs = kwargs ++ map_of HARD_CODED_OPTS;
             kwargs = kwargs(''input_paths'' \<mapsto> PList [os_devnull])
         in bind_err (get_step ro options parser cl_args) (\<lambda>step.
              Inr (RunnerRun rc (kwargs(''steps'' \<mapsto> PSteps [step]))))))))))))"

section \<open>Option classes and concrete tables\<close>

text \<open>
  The three classes of the known switch-bearing option names, as the module computes them:
  the step-only names \<^verbatim>\<open>_STEP_OPT_NAMES\<close>, the forwarded names \<^verbatim>\<open>_SPARK_ARG_OPT_NAMES\<close>, and
  the names for which \<^verbatim>\<open>opt_name in _RUNNER_OPTS\<close> holds.
\<close>

definition known_switch_names :: "string set" where
  "known_switch_names = set (map fst SPARK_SUBMIT_SWITCHES)"

definition runner_opt_class :: "runner_opts \<Rightarrow> string set" where
  "runner_opt_class ro = {n \<in> known_switch_names. n \<in> set (map fst ro)}"

text \<open>
  Following the spec's words (section 4.1): the forward class relative to a backend, the
  known names minus the names that backend declares minus the step-only name.
\<close>

definition forward_class_of_backend :: "(string \<Rightarrow> string set) \<Rightarrow> string \<Rightarrow> string set" where
  "forward_class_of_backend OPT_NAMES backend =
     known_switch_names - OPT_NAMES backend - {''main_class''}"

text \<open>
  Following the spec's words (section 4.5): the extension of a path is what follows its
  last dot, the whole path when it has none.
\<close>

definition extension :: "string \<Rightarrow> string" where
  "extension s = rev (takeWhile (\<lambda>c. c \<noteq> CHR ''.'') (rev s))"

text \<open>
  Concrete tables for the closed evaluations. The runner table holds the runner options
  that \<^verbatim>\<open>spark_submit.py\<close> itself presumes: the four targets of \<^verbatim>\<open>_SWITCH_ALIASES\<close>,
  \<^verbatim>\<open>py_files\<close> (named as a runner argument in the docstring of
  \<^verbatim>\<open>_make_basic_help_parser\<close>) and the two hard-coded options. The declared option names
  follow the help group "Hadoop runner only" for \<^verbatim>\<open>spark_master\<close>. The basic arguments are
  the two verbosity flags that \<open>main\<close> reads.
\<close>

definition example_RUNNER_OPTS :: runner_opts where
  "example_RUNNER_OPTS = [
    (''check_input_paths'', Some [([''--check-input-paths''], [''action'' \<mapsto> KStr ''store_true''])]),
    (''jobconf'', Some [([''-D'', ''--jobconf''], [''action'' \<mapsto> KStr ''append''])]),
    (''libjars'', Some [([''--libjars''], [''action'' \<mapsto> KStr ''append''])]),
    (''output_dir'', Some [([''--output-dir''], Map.empty)]),
    (''py_files'', Some [([''--py-files''], [''action'' \<mapsto> KStr ''append''])]),
    (''spark_deploy_mode'', Some [([''--spark-deploy-mode''], Map.empty)]),
    (''spark_master'', Some [([''--spark-master''], Map.empty)])]"

definition example_OPT_NAMES :: "string \<Rightarrow> string set" where
  "example_OPT_NAMES alias =
     (if alias = ''hadoop'' then set (map fst example_RUNNER_OPTS)
      else set (map fst example_RUNNER_OPTS) - {''spark_master''})"

definition example_basic :: "argument list" where
  "example_basic = [
    ([''-q'', ''--quiet''], [''dest'' \<mapsto> KStr ''quiet'', ''action'' \<mapsto> KStr ''store_true'']),
    ([''-v'', ''--verbose''], [''dest'' \<mapsto> KStr ''verbose'', ''action'' \<mapsto> KStr ''store_true''])]"

text \<open>The forwarded tokens that a step carries (its \<^verbatim>\<open>spark_args\<close> field).\<close>

fun spark_args_of :: "step \<Rightarrow> string list" where
  "spark_args_of (SparkJarStep args jar main_class spark_args) = spark_args"
| "spark_args_of (SparkScriptStep args script spark_args) = spark_args"

text \<open>
  The invariant that \<^verbatim>\<open>add_argument\<close> maintains by raising on a conflict: no option
  string belongs to two different registered arguments.
\<close>

definition unique_switches :: "parser \<Rightarrow> bool" where
  "unique_switches p =
     (\<forall>a \<in> set p. \<forall>b \<in> set p. a \<noteq> b \<longrightarrow> set (fst a) \<inter> set (fst b) = {})"

text \<open>The parser that \<^verbatim>\<open>_make_arg_parser\<close> returns, for the closed evaluations.\<close>

definition built_parser :: "argument list \<Rightarrow> runner_opts \<Rightarrow> parser" where
  "built_parser basic ro = (case make_arg_parser basic ro of Inl _ \<Rightarrow> [] | Inr p \<Rightarrow> p)"

text \<open>
  Following the spec's words (section 8, alias equivalence): the command line in which the
  adapter's spelling of a switch is replaced by the backend's native spelling.
\<close>

definition respell :: "string \<Rightarrow> string \<Rightarrow> string list \<Rightarrow> string list" where
  "respell adapter native cl_args = map (\<lambda>t. if t = adapter then native else t) cl_args"

text \<open>One step of building a parser: arguments are only appended, and the invariant is kept.\<close>

definition grows :: "parser \<Rightarrow> parser \<Rightarrow> bool" where
  "grows p p' = (prefix p p' \<and> (unique_switches p \<longrightarrow> unique_switches p'))"

section \<open>Basic facts\<close>

lemma bind_err_Inr [simp]: "bind_err (Inr x) f = f x"
  by (simp add: bind_err_def)

lemma bind_err_Inl [simp]: "bind_err (Inl e) f = Inl e"
  by (simp add: bind_err_def)

lemma bind_err_eq_Inr: "bind_err m f = Inr y \<longleftrightarrow> (\<exists>x. m = Inr x \<and> f x = Inr y)"
  by (cases m) simp_all

lemma attr_Some [simp]: "options k = Some v \<Longrightarrow> attr options k = Inr v"
  by (simp add: attr_def)

lemma attr_eq_Inr: "attr options k = Inr v \<longleftrightarrow> options k = Some v"
  by (simp add: attr_def split: option.splits)

subsection \<open>String operations\<close>

lemma endswith_suffix: "endswith s suf \<longleftrightarrow> suffix suf s"
proof
  assume "endswith s suf"
  then have "s = take (length s - length suf) s @ suf"
    by (metis append_take_drop_id endswith_def)
  then show "suffix suf s"
    by (metis suffixI)
next
  assume "suffix suf s"
  then obtain stem where "s = stem @ suf"
    by (auto simp: suffix_def)
  then show "endswith s suf"
    by (simp add: endswith_def)
qed

lemma startswith_prefix: "startswith s pre \<longleftrightarrow> prefix pre s"
  by (metis startswith_def prefix_def append_eq_conv_conj)

lemma split_not_Nil: "split s sep \<noteq> []"
  by (induction s) (auto split: list.splits)

lemma split_without_sep: "sep \<notin> set s \<Longrightarrow> split s sep = [s]"
  by (induction s) auto

lemma last_item_last: "xs \<noteq> [] \<Longrightarrow> last_item xs = Some (last xs)"
  by (induction xs rule: last_item.induct) simp_all

lemma last_split: "last (split s sep) = rev (takeWhile (\<lambda>c. c \<noteq> sep) (rev s))"
proof (induction s)
  case Nil
  then show ?case by simp
next
  case (Cons c cs)
  show ?case
  proof (cases "sep \<in> set cs")
    case True
    then have tw: "takeWhile (\<lambda>c. c \<noteq> sep) (rev cs @ [c]) = takeWhile (\<lambda>c. c \<noteq> sep) (rev cs)"
      by (simp add: takeWhile_append1)
    have "length (split cs sep) \<ge> 2" using True
      by (induction cs) (auto split: list.splits simp: split_not_Nil)
    then obtain p q ps where sp: "split cs sep = p # q # ps"
      by (cases "split cs sep"; cases "tl (split cs sep)") auto
    then show ?thesis using Cons tw by (auto split: list.splits)
  next
    case False
    then have one: "split cs sep = [cs]"
      by (rule split_without_sep)
    have "takeWhile (\<lambda>c. c \<noteq> sep) (rev cs @ [c]) = rev cs @ takeWhile (\<lambda>c. c \<noteq> sep) [c]"
      by (rule takeWhile_append2) (use False in auto)
    moreover have "takeWhile (\<lambda>c. c \<noteq> sep) (rev cs) = rev cs"
      using False by (auto simp add: takeWhile_eq_all_conv)
    ultimately show ?thesis using one Cons by auto
  qed
qed

lemma lower_char_dot: "lower_char c = CHR ''.'' \<longleftrightarrow> c = CHR ''.''"
  by (auto simp: lower_char_def split: option.splits if_splits)

lemma lower_dotless: "CHR ''.'' \<in> set (lower s) \<longleftrightarrow> CHR ''.'' \<in> set s"
  by (induction s) (simp_all add: lower_def lower_char_dot eq_commute [of "CHR ''.''"])

subsection \<open>The forwarding loop\<close>

lemma fold_forward:
  "fold (\<lambda>(dest, option_string, args) spark_args.
           if dest \<in> S then (spark_args @ [option_string]) @ args else spark_args) rs acc
   = acc @ concat (map (\<lambda>(dest, option_string, args). option_string # args)
                     (filter (\<lambda>(dest, option_string, args). dest \<in> S) rs))"
  by (induction rs arbitrary: acc) auto

lemma subseq_scan:
  "subseq (concat (map (\<lambda>(dest, option_string, args). option_string # args)
             (filter Q (records (scan p ts))))) ts"
proof (induction p ts rule: scan.induct)
  case (1 p)
  then show ?case by simp
next
  case (2 p t ts)
  let ?F = "\<lambda>occ. concat (map (\<lambda>(dest, option_string, args). option_string # args)
             (filter Q (records occ)))"
  show ?case
  proof (cases "lookup_switch p t")
    case None
    then have e: "?F (scan p (t # ts)) = ?F (scan p ts)" by simp
    have "subseq (?F (scan p ts)) ts" using 2(1) None by simp
    then show ?thesis unfolding e by (rule list_emb_Cons)
  next
    case (Some a)
    show ?thesis
    proof (cases "is_flag a")
      case True
      then have e: "?F (scan p (t # ts)) = (if Q (dest_of a, t, []) then [t] else []) @ ?F (scan p ts)"
        using Some by simp
      have "subseq (?F (scan p ts)) ts" using 2(2) Some True by simp
      then show ?thesis unfolding e by (simp add: list_emb_Cons)
    next
      case False
      show ?thesis
      proof (cases ts)
        case Nil
        then show ?thesis using Some False by simp
      next
        case (Cons v ts')
        show ?thesis
        proof (cases "switch_like v")
          case True
          then have e: "?F (scan p (t # ts)) = ?F (scan p ts)"
            using Some False Cons by simp
          have "subseq (?F (scan p ts)) ts"
            using 2(3) Some False Cons True by simp
          then show ?thesis unfolding e by (rule list_emb_Cons)
        next
          case sl: False
          then have e: "?F (scan p (t # ts)) =
               (if Q (dest_of a, t, [v]) then [t, v] else []) @ ?F (scan p ts')"
            using Some False Cons by simp
          have s: "subseq (?F (scan p ts')) ts'"
            using 2(4) Some False Cons sl by simp
          show ?thesis unfolding e using s Cons by (simp add: list_emb_Cons)
        qed
      qed
    qed
  qed
qed

subsection \<open>The option classes\<close>

lemma known_names_grouped: "set (map fst SPARK_SUBMIT_SWITCHES) = SPARK_SUBMIT_OPT_NAMES"
  by code_simp

lemma main_class_known: "''main_class'' \<in> known_switch_names"
  by (simp add: known_switch_names_def SPARK_SUBMIT_SWITCHES_def)

subsection \<open>Building the parser\<close>

lemma add_argument_eq_Inr:
  "add_argument p strs kw = Inr p' \<longleftrightarrow>
     (\<forall>s \<in> set strs. s \<notin> set (option_strings p)) \<and> p' = p @ [(strs, kw)]"
  by (auto simp: add_argument_def filter_empty_conv split: list.splits)

lemma unique_switches_snoc:
  assumes "unique_switches p" and "\<forall>s \<in> set strs. s \<notin> set (option_strings p)"
  shows "unique_switches (p @ [(strs, kw)])"
  using assms unfolding unique_switches_def option_strings_def by fastforce

lemma grows_refl: "grows p p"
  by (simp add: grows_def)

lemma grows_trans: "grows p q \<Longrightarrow> grows q r \<Longrightarrow> grows p r"
  by (auto simp: grows_def)

lemma add_argument_grows: "add_argument p strs kw = Inr p' \<Longrightarrow> grows p p'"
  by (auto simp: add_argument_eq_Inr grows_def intro: unique_switches_snoc)

lemma foldM_grows_aux:
  "\<forall>x \<in> set xs. \<forall>q q'. f x q = Inr q' \<longrightarrow> grows q q' \<Longrightarrow>
   foldM f xs p = Inr p' \<Longrightarrow> grows p p'"
proof (induction xs arbitrary: p)
  case Nil
  then show ?case by (simp add: grows_refl)
next
  case (Cons x xs)
  from Cons.prems(2) obtain q where q: "f x p = Inr q" and rest: "foldM f xs q = Inr p'"
    by (auto simp: bind_err_eq_Inr)
  have "grows p q" using Cons.prems(1) q by simp
  moreover have "grows q p'" using Cons.IH [of q] Cons.prems(1) rest by simp
  ultimately show ?case by (rule grows_trans)
qed

lemma foldM_grows:
  assumes "\<And>x q q'. x \<in> set xs \<Longrightarrow> f x q = Inr q' \<Longrightarrow> grows q q'"
    and "foldM f xs p = Inr p'"
  shows "grows p p'"
proof -
  have "\<forall>x \<in> set xs. \<forall>q q'. f x q = Inr q' \<longrightarrow> grows q q'"
    using assms(1) by blast
  then show ?thesis using assms(2) by (rule foldM_grows_aux)
qed

lemma foldM_member_aux:
  "\<forall>x \<in> set xs. \<forall>q q'. f x q = Inr q' \<longrightarrow> grows q q' \<Longrightarrow>
   foldM f xs p = Inr p' \<Longrightarrow> x \<in> set xs \<Longrightarrow>
   \<exists>q q'. f x q = Inr q' \<and> grows p q \<and> grows q' p'"
proof (induction xs arbitrary: p)
  case Nil
  then show ?case by simp
next
  case (Cons y ys)
  from Cons.prems(2) obtain q where q: "f y p = Inr q" and rest: "foldM f ys q = Inr p'"
    by (auto simp: bind_err_eq_Inr)
  have step: "\<forall>x \<in> set ys. \<forall>q q'. f x q = Inr q' \<longrightarrow> grows q q'"
    using Cons.prems(1) by simp
  have pq: "grows p q" using Cons.prems(1) q by simp
  have qp': "grows q p'"
    using step rest by (rule foldM_grows_aux)
  show ?case
  proof (cases "x = y")
    case True
    with q pq qp' show ?thesis using grows_refl by blast
  next
    case False
    with Cons.prems(3) have "x \<in> set ys" by simp
    from Cons.IH [OF step rest this]
    obtain r r' where "f x r = Inr r'" "grows q r" "grows r' p'" by blast
    with pq show ?thesis using grows_trans by blast
  qed
qed

lemma foldM_member:
  assumes "\<And>x q q'. x \<in> set xs \<Longrightarrow> f x q = Inr q' \<Longrightarrow> grows q q'"
    and "foldM f xs p = Inr p'" and "x \<in> set xs"
  shows "\<exists>q q'. f x q = Inr q' \<and> grows p q \<and> grows q' p'"
proof -
  have "\<forall>x \<in> set xs. \<forall>q q'. f x q = Inr q' \<longrightarrow> grows q q'"
    using assms(1) by blast
  then show ?thesis using assms(2,3) by (rule foldM_member_aux)
qed

lemma add_basic_args_grows: "add_basic_args basic p = Inr p' \<Longrightarrow> grows p p'"
  unfolding add_basic_args_def
  by (rule foldM_grows [where f = "\<lambda>(strs, kw) p. add_argument p strs kw"])
     (auto intro: add_argument_grows)

lemma add_runner_args_for_opt_grows: "add_runner_args_for_opt e p = Inr p' \<Longrightarrow> grows p p'"
  unfolding add_runner_args_for_opt_def
  by (rule foldM_grows [where f = "\<lambda>(strs, kw) p. add_argument p strs (kw(''dest'' \<mapsto> KStr (fst e)))"])
     (auto intro: add_argument_grows)

lemma add_runner_args_grows: "add_runner_args ro p names = Inr p' \<Longrightarrow> grows p p'"
  unfolding add_runner_args_def
  by (rule foldM_grows [where f = add_runner_args_for_opt])
     (auto intro: add_runner_args_for_opt_grows)

lemma add_spark_submit_arg_grows: "add_spark_submit_arg ro p opt_name = Inr p' \<Longrightarrow> grows p p'"
  by (auto simp: add_spark_submit_arg_def bind_err_eq_Inr intro: add_argument_grows)

lemma spark_loop_grows:
  "foldM (\<lambda>(opt_name, switch) p.
                if opt_name \<in> set (map fst ro) \<and> switch \<notin> set (map fst SWITCH_ALIASES)
                then Inr p else add_spark_submit_arg ro p opt_name) xs p = Inr p' \<Longrightarrow> grows p p'"
  by (rule foldM_grows [where f = "\<lambda>(opt_name, switch) p.
                if opt_name \<in> set (map fst ro) \<and> switch \<notin> set (map fst SWITCH_ALIASES)
                then Inr p else add_spark_submit_arg ro p opt_name"])
     (auto intro: add_spark_submit_arg_grows grows_refl split: if_splits)

lemma grows_member: "grows p p' \<Longrightarrow> a \<in> set p \<Longrightarrow> a \<in> set p'"
  by (auto simp: grows_def prefix_def)

lemma grows_unique: "grows p p' \<Longrightarrow> unique_switches p \<Longrightarrow> unique_switches p'"
  by (simp add: grows_def)

lemma add_argument_member: "add_argument p strs kw = Inr p' \<Longrightarrow> (strs, kw) \<in> set p'"
  by (simp add: add_argument_eq_Inr)

lemma lookup_switch_unique:
  assumes "unique_switches p" and "a \<in> set p" and "t \<in> set (fst a)"
  shows "lookup_switch p t = Some a"
proof (cases "find (\<lambda>b. t \<in> set (fst b)) p")
  case None
  then have "\<not> (\<exists>x. x \<in> set p \<and> t \<in> set (fst x))"
    by (simp add: find_None_iff)
  with assms(2,3) show ?thesis by blast
next
  case (Some b)
  then have b: "b \<in> set p" "t \<in> set (fst b)"
    by (auto simp: find_Some_iff)
  have "b = a"
  proof (rule ccontr)
    assume "b \<noteq> a"
    with assms(1,2) b(1) have "set (fst b) \<inter> set (fst a) = {}"
      by (auto simp: unique_switches_def)
    with b(2) assms(3) show False by blast
  qed
  with Some show ?thesis by (simp add: lookup_switch_def)
qed

lemma make_arg_parser_stages:
  assumes "make_arg_parser basic ro = Inr p"
  obtains p3 p4 p5 p6 p7 where
    "add_basic_args basic
       [([], [''dest'' \<mapsto> KStr ''script_or_jar'', ''nargs'' \<mapsto> KStr ''?'']),
        ([], [''dest'' \<mapsto> KStr ''args'', ''nargs'' \<mapsto> KStr ''*''])] = Inr p3"
    and "add_runner_alias_arg p3 = Inr p4"
    and "add_help_arg p4 = Inr p5"
    and "add_deprecated_arg p5 = Inr p6"
    and "add_runner_args ro p6 (set (map fst ro) - set (map fst HARD_CODED_OPTS)) = Inr p7"
    and "foldM (\<lambda>(opt_name, switch) p.
                if opt_name \<in> set (map fst ro) \<and> switch \<notin> set (map fst SWITCH_ALIASES)
                then Inr p else add_spark_submit_arg ro p opt_name)
         SPARK_SUBMIT_SWITCHES p7 = Inr p"
proof -
  have a1: "add_argument [] [] kw = Inr [([], kw)]" for kw
    by (simp add: add_argument_def)
  have a2: "add_argument [([], kw)] [] kw' = Inr [([], kw), ([], kw')]" for kw kw'
    by (simp add: add_argument_def)
  from assms show ?thesis
    unfolding make_arg_parser_def a1 a2 bind_err_Inr bind_err_eq_Inr
    by (elim exE conjE) (rule that)
qed

lemma positionals_unique:
  "unique_switches [([], kw), ([], kw')]"
  by (simp add: unique_switches_def)

lemma make_arg_parser_unique:
  assumes "make_arg_parser basic ro = Inr p"
  shows "unique_switches p"
proof -
  from assms obtain p3 p4 p5 p6 p7 where
    s3: "add_basic_args basic
       [([], [''dest'' \<mapsto> KStr ''script_or_jar'', ''nargs'' \<mapsto> KStr ''?'']),
        ([], [''dest'' \<mapsto> KStr ''args'', ''nargs'' \<mapsto> KStr ''*''])] = Inr p3"
    and s4: "add_runner_alias_arg p3 = Inr p4"
    and s5: "add_help_arg p4 = Inr p5"
    and s6: "add_deprecated_arg p5 = Inr p6"
    and s7: "add_runner_args ro p6 (set (map fst ro) - set (map fst HARD_CODED_OPTS)) = Inr p7"
    and s8: "foldM (\<lambda>(opt_name, switch) p.
                if opt_name \<in> set (map fst ro) \<and> switch \<notin> set (map fst SWITCH_ALIASES)
                then Inr p else add_spark_submit_arg ro p opt_name)
         SPARK_SUBMIT_SWITCHES p7 = Inr p"
    by (rule make_arg_parser_stages)
  have "unique_switches p3"
    using add_basic_args_grows [OF s3] positionals_unique by (rule grows_unique)
  then have "unique_switches p4"
    using s4 by (auto simp: add_runner_alias_arg_def dest: add_argument_grows grows_unique)
  then have "unique_switches p5"
    using s5 by (auto simp: add_help_arg_def dest: add_argument_grows grows_unique)
  then have "unique_switches p6"
    using s6 by (auto simp: add_deprecated_arg_def dest: add_argument_grows grows_unique)
  then have "unique_switches p7"
    using add_runner_args_grows [OF s7] by (auto dest: grows_unique)
  then show ?thesis
    using spark_loop_grows [OF s8] by (auto dest: grows_unique)
qed

lemma make_arg_parser_runner_arg:
  assumes "make_arg_parser basic ro = Inr p"
  shows "\<exists>kw. ([''-r'', ''--runner''], kw) \<in> set p
            \<and> kw ''dest'' = Some (KStr ''runner'')
            \<and> kw ''choices'' = Some (KTuple SPARK_RUNNERS)
            \<and> kw ''action'' = None"
proof -
  from assms obtain p3 p4 p5 p6 p7 where
    s4: "add_runner_alias_arg p3 = Inr p4"
    and s5: "add_help_arg p4 = Inr p5"
    and s6: "add_deprecated_arg p5 = Inr p6"
    and s7: "add_runner_args ro p6 (set (map fst ro) - set (map fst HARD_CODED_OPTS)) = Inr p7"
    and s8: "foldM (\<lambda>(opt_name, switch) p.
                if opt_name \<in> set (map fst ro) \<and> switch \<notin> set (map fst SWITCH_ALIASES)
                then Inr p else add_spark_submit_arg ro p opt_name)
         SPARK_SUBMIT_SWITCHES p7 = Inr p"
    by (rule make_arg_parser_stages)
  let ?kw = "[''dest'' \<mapsto> KStr ''runner'', ''choices'' \<mapsto> KTuple SPARK_RUNNERS,
        ''help'' \<mapsto> KStr (''Where to run the job (default: '' @ [CHR 0x22] @ DEFAULT_RUNNER @ [CHR 0x22] @ '')'')]"
  have "([''-r'', ''--runner''], ?kw) \<in> set p4"
    using s4 by (auto simp: add_runner_alias_arg_def add_argument_eq_Inr)
  then have "([''-r'', ''--runner''], ?kw) \<in> set p5"
    using s5 by (auto simp: add_help_arg_def dest: add_argument_grows grows_member)
  then have "([''-r'', ''--runner''], ?kw) \<in> set p6"
    using s6 by (auto simp: add_deprecated_arg_def dest: add_argument_grows grows_member)
  then have "([''-r'', ''--runner''], ?kw) \<in> set p7"
    using add_runner_args_grows [OF s7] by (auto dest: grows_member)
  then have "([''-r'', ''--runner''], ?kw) \<in> set p"
    using spark_loop_grows [OF s8] by (auto dest: grows_member)
  moreover have "?kw ''dest'' = Some (KStr ''runner'') \<and> ?kw ''choices'' = Some (KTuple SPARK_RUNNERS)
       \<and> ?kw ''action'' = None"
    by simp
  ultimately show ?thesis by blast
qed

subsection \<open>Scanning and running the actions\<close>

lemma run_actions_append:
  "run_actions (occ @ occ') ns = bind_err (run_actions occ ns) (run_actions occ')"
  by (induction occ ns rule: run_actions.induct) (auto split: list.splits)

lemma run_actions_no_Missing:
  "run_actions occ ns = Inr ns' \<Longrightarrow> Missing t \<notin> set occ"
  by (induction occ ns rule: run_actions.induct) (auto split: list.splits)

lemma scan_append:
  "\<forall>t. Missing t \<notin> set (scan p pre) \<Longrightarrow> scan p (pre @ rest) = scan p pre @ scan p rest"
proof (induction p pre rule: scan.induct)
  case (1 p)
  then show ?case by simp
next
  case (2 p t ts)
  show ?case
  proof (cases "lookup_switch p t")
    case None
    with 2 show ?thesis by simp
  next
    case (Some a)
    show ?thesis
    proof (cases "is_flag a")
      case True
      with 2 Some show ?thesis by simp
    next
      case False
      show ?thesis
      proof (cases ts)
        case Nil
        with 2(5) Some False show ?thesis by simp
      next
        case (Cons v ts')
        show ?thesis
        proof (cases "switch_like v")
          case True
          then have "Missing t \<in> set (scan p (t # ts))"
            using Some False Cons by simp
          with 2(5) show ?thesis by blast
        next
          case sl: False
          have "\<forall>t. Missing t \<notin> set (scan p ts')"
            using 2(5) Some False Cons sl by simp
          then have "scan p (ts' @ rest) = scan p ts' @ scan p rest"
            using 2(4) Some False Cons sl by simp
          then show ?thesis
            using Some False Cons sl by simp
        qed
      qed
    qed
  qed
qed

subsection \<open>Aliased switches\<close>

lemma switches_distinct: "distinct (map fst SPARK_SUBMIT_SWITCHES)"
  by code_simp

lemma aliases_distinct: "distinct (map fst SWITCH_ALIASES)"
  by code_simp

lemma aliased_opt_names:
  assumes "(adapter, native) \<in> set SWITCH_ALIASES"
    and "(opt_name, adapter) \<in> set SPARK_SUBMIT_SWITCHES"
  shows "opt_name \<in> {''spark_master'', ''spark_deploy_mode'', ''libjars'', ''jobconf''}"
proof -
  from assms(1) have "adapter \<in> {''--master'', ''--deploy-mode'', ''--jars'', ''--conf''}"
    by (auto simp: SWITCH_ALIASES_def)
  moreover have "\<forall>e \<in> set SPARK_SUBMIT_SWITCHES.
      snd e \<in> {''--master'', ''--deploy-mode'', ''--jars'', ''--conf''} \<longrightarrow>
      fst e \<in> {''spark_master'', ''spark_deploy_mode'', ''libjars'', ''jobconf''}"
    by code_simp
  ultimately show ?thesis using assms(2) by fastforce
qed

lemma switch_like_aliases:
  assumes "(adapter, native) \<in> set SWITCH_ALIASES"
  shows "switch_like adapter \<and> switch_like native"
  using assms by (auto simp: SWITCH_ALIASES_def switch_like_def)

lemma fold_filter_Nil:
  "filter P xs = [] \<Longrightarrow> fold (\<lambda>e acc. if P e then g e acc else acc) xs acc = acc"
  by (induction xs arbitrary: acc) (auto split: if_splits)

lemma fold_filter_single:
  "filter P xs = [x] \<Longrightarrow> fold (\<lambda>e acc. if P e then g e acc else acc) xs acc = g x acc"
  by (induction xs arbitrary: acc) (auto split: if_splits simp: fold_filter_Nil)

lemma native_switch_registered:
  assumes built: "make_arg_parser basic ro = Inr p"
    and sw: "(opt_name, adapter) \<in> set SPARK_SUBMIT_SWITCHES"
    and ro: "map_of ro opt_name = Some (Some sw)"
    and entry: "(strs, kw) \<in> set sw"
  shows "(strs, kw(''dest'' \<mapsto> KStr opt_name)) \<in> set p"
proof -
  from built obtain p3 p4 p5 p6 p7 where
    s7: "add_runner_args ro p6 (set (map fst ro) - set (map fst HARD_CODED_OPTS)) = Inr p7"
    and s8: "foldM (\<lambda>(opt_name, switch) p.
                if opt_name \<in> set (map fst ro) \<and> switch \<notin> set (map fst SWITCH_ALIASES)
                then Inr p else add_spark_submit_arg ro p opt_name)
         SPARK_SUBMIT_SWITCHES p7 = Inr p"
    by (rule make_arg_parser_stages)
  have "\<forall>e \<in> set SPARK_SUBMIT_SWITCHES. fst e \<notin> set (map fst HARD_CODED_OPTS)"
    by code_simp
  with sw have nh: "opt_name \<notin> set (map fst HARD_CODED_OPTS)"
    by fastforce
  have "(opt_name, Some sw) \<in> set ro"
    using ro by (rule map_of_SomeD)
  then have mem: "(opt_name, Some sw) \<in> set (filter (\<lambda>entry. fst entry \<in> set (map fst ro) - set (map fst HARD_CODED_OPTS)) ro)"
    using nh by force
  from s7 have "foldM add_runner_args_for_opt
      (filter (\<lambda>entry. fst entry \<in> set (map fst ro) - set (map fst HARD_CODED_OPTS)) ro) p6 = Inr p7"
    by (simp add: add_runner_args_def)
  from foldM_member [OF _ this mem] obtain q q' where
    q: "add_runner_args_for_opt (opt_name, Some sw) q = Inr q'" and q': "grows q' p7"
    using add_runner_args_for_opt_grows by blast
  from q have "foldM (\<lambda>(strs, kw) p. add_argument p strs (kw(''dest'' \<mapsto> KStr opt_name))) sw q = Inr q'"
    by (simp add: add_runner_args_for_opt_def)
  from foldM_member [OF _ this entry] obtain r r' where
    r: "add_argument r strs (kw(''dest'' \<mapsto> KStr opt_name)) = Inr r'" and r': "grows r' q'"
    by (auto intro: add_argument_grows)
  have "(strs, kw(''dest'' \<mapsto> KStr opt_name)) \<in> set r'"
    using r by (rule add_argument_member)
  then have "(strs, kw(''dest'' \<mapsto> KStr opt_name)) \<in> set p7"
    using r' q' by (auto dest: grows_member)
  then show ?thesis
    using spark_loop_grows [OF s8] by (auto dest: grows_member)
qed

lemma adapter_switch_registered:
  assumes built: "make_arg_parser basic ro = Inr p"
    and al: "(adapter, native) \<in> set SWITCH_ALIASES"
    and sw: "(opt_name, adapter) \<in> set SPARK_SUBMIT_SWITCHES"
    and ro: "map_of ro opt_name = Some (Some sw)"
    and single: "filter (\<lambda>(strs, kw). native \<in> set strs) sw = [(strs, kw)]"
  shows "\<exists>h. ([adapter], ([''dest'' \<mapsto> KStr opt_name] ++ kw)(''help'' \<mapsto> KStr h)) \<in> set p"
proof -
  from built obtain p3 p4 p5 p6 p7 where
    s8: "foldM (\<lambda>(opt_name, switch) p.
                if opt_name \<in> set (map fst ro) \<and> switch \<notin> set (map fst SWITCH_ALIASES)
                then Inr p else add_spark_submit_arg ro p opt_name)
         SPARK_SUBMIT_SWITCHES p7 = Inr p"
    by (rule make_arg_parser_stages)
  have step: "\<forall>x \<in> set SPARK_SUBMIT_SWITCHES. \<forall>q q'.
      (case x of (opt_name, switch) \<Rightarrow> \<lambda>p.
                if opt_name \<in> set (map fst ro) \<and> switch \<notin> set (map fst SWITCH_ALIASES)
                then Inr p else add_spark_submit_arg ro p opt_name) q = Inr q' \<longrightarrow> grows q q'"
    by (auto intro: add_spark_submit_arg_grows grows_refl split: if_splits)
  have ak: "adapter \<in> set (map fst SWITCH_ALIASES)"
    using al by force
  from foldM_member_aux [OF step s8 sw] obtain q q' where
    "(if opt_name \<in> set (map fst ro) \<and> adapter \<notin> set (map fst SWITCH_ALIASES)
                then Inr q else add_spark_submit_arg ro q opt_name) = Inr q'" and q': "grows q' p"
    by auto
  with ak have q: "add_spark_submit_arg ro q opt_name = Inr q'"
    by simp
  have g1: "getitem SPARK_SUBMIT_SWITCHES opt_name = Inr adapter"
    using sw switches_distinct by (simp add: getitem_def)
  have g2: "map_of SWITCH_ALIASES adapter = Some native"
    using al aliases_distinct by simp
  have g3: "opt_name \<in> fst ` set ro"
    using ro by (force dest: map_of_SomeD)
  have g4: "runner_switches ro opt_name = Inr sw"
    using ro by (simp add: runner_switches_def getitem_def)
  have g5: "fold (\<lambda>(opt_strings, opt_kwargs) kwargs.
                 if native \<in> set opt_strings then kwargs ++ opt_kwargs else kwargs)
              sw [''dest'' \<mapsto> KStr opt_name] = [''dest'' \<mapsto> KStr opt_name] ++ kw"
  proof -
    have e: "(\<lambda>(opt_strings, opt_kwargs) kwargs.
                 if native \<in> set opt_strings then kwargs ++ opt_kwargs else kwargs)
        = (\<lambda>e acc. if (case e of (strs, kw) \<Rightarrow> native \<in> set strs)
                         then acc ++ snd e else acc)"
      by (auto simp: fun_eq_iff)
    have "fold (\<lambda>e acc. if (case e of (strs, kw) \<Rightarrow> native \<in> set strs)
                         then acc ++ snd e else acc)
              sw [''dest'' \<mapsto> KStr opt_name]
          = [''dest'' \<mapsto> KStr opt_name] ++ snd (strs, kw)"
      using single by (rule fold_filter_single)
    then show ?thesis
      unfolding e by simp
  qed
  have "opt_name \<noteq> ''supervise''"
    using aliased_opt_names [OF al sw] by auto
  then have g6: "map_of SPARK_SUBMIT_ARG_KWARGS opt_name = None"
    by (simp add: SPARK_SUBMIT_ARG_KWARGS_def)
  from q obtain h where
    "add_argument q [adapter] (([''dest'' \<mapsto> KStr opt_name] ++ kw)(''help'' \<mapsto> KStr h)) = Inr q'"
    by (auto simp: add_spark_submit_arg_def g1 g2 g3 g4 g5 g6 bind_err_eq_Inr Let_def)
  then have "([adapter], ([''dest'' \<mapsto> KStr opt_name] ++ kw)(''help'' \<mapsto> KStr h)) \<in> set q'"
    by (rule add_argument_member)
  then show ?thesis
    using q' by (auto dest: grows_member)
qed

lemma same_action_facts:
  assumes "dest_of A = dest_of N" and "action_of A = action_of N" and "choices_of A = choices_of N"
  shows "is_flag A = is_flag N" and "apply_action A vs ns = apply_action N vs ns"
    and "bad_choices A vs = bad_choices N vs"
  using assms by (auto simp: is_flag_def apply_action_def bad_choices_def split: list.splits)

lemma run_actions_Switch_cong:
  assumes "bad_choices A vs = bad_choices N vs" and "apply_action A vs ns = apply_action N vs ns"
    and "\<And>ns1. (run_actions occ' ns1 = Inr ns') = (run_actions occ ns1 = Inr ns')"
  shows "(run_actions (Switch N s' vs # occ') ns = Inr ns') = (run_actions (Switch A s vs # occ) ns = Inr ns')"
  using assms by (simp split: list.splits)

lemma scan_unregistered:
  "lookup_switch p t = None \<Longrightarrow>
   scan p (t # ts) = (if switch_like t then Unknown t else Positional t) # scan p ts"
  by simp

lemma scan_flag:
  "lookup_switch p t = Some a \<Longrightarrow> is_flag a \<Longrightarrow> scan p (t # ts) = Switch a t [] # scan p ts"
  by simp

lemma scan_last:
  "lookup_switch p t = Some a \<Longrightarrow> \<not> is_flag a \<Longrightarrow> scan p [t] = [Missing t]"
  by simp

lemma scan_missing:
  "lookup_switch p t = Some a \<Longrightarrow> \<not> is_flag a \<Longrightarrow> switch_like v \<Longrightarrow>
   scan p (t # v # ts) = Missing t # scan p (v # ts)"
  by simp

lemma scan_value:
  "lookup_switch p t = Some a \<Longrightarrow> \<not> is_flag a \<Longrightarrow> \<not> switch_like v \<Longrightarrow>
   scan p (t # v # ts) = Switch a t [v] # scan p ts"
  by simp

lemma respell_scan:
  assumes "lookup_switch p adapter = Some A" and "lookup_switch p native = Some N"
    and "dest_of A = dest_of N" and "action_of A = action_of N" and "choices_of A = choices_of N"
    and "switch_like adapter" and "switch_like native"
  shows "(\<forall>ns. (run_actions (scan p (respell adapter native ts)) ns = Inr ns')
              = (run_actions (scan p ts) ns = Inr ns'))
       \<and> unknowns (scan p (respell adapter native ts)) = unknowns (scan p ts)
       \<and> positionals (scan p (respell adapter native ts)) = positionals (scan p ts)"
  using assms
proof (induction p ts rule: scan.induct)
  case (1 p)
  then show ?case by (simp add: respell_def)
next
  case (2 p t ts)
  let ?f = "\<lambda>t. if t = adapter then native else t"
  let ?P = "\<lambda>ts. (\<forall>ns. (run_actions (scan p (respell adapter native ts)) ns = Inr ns')
              = (run_actions (scan p ts) ns = Inr ns'))
       \<and> unknowns (scan p (respell adapter native ts)) = unknowns (scan p ts)
       \<and> positionals (scan p (respell adapter native ts)) = positionals (scan p ts)"
  note A = "2.prems"(1) and N = "2.prems"(2)
  note same = same_action_facts [OF "2.prems"(3-5)]
  have rs: "respell adapter native (t # ts) = ?f t # respell adapter native ts"
    by (simp add: respell_def)
  have sl: "switch_like (?f v) = switch_like v" for v
    using "2.prems"(6,7) by simp
  have nsl: "\<not> switch_like v \<Longrightarrow> ?f v = v" for v
    using "2.prems"(6) by auto
  have hd_rs: "respell adapter native (v # ts') = ?f v # respell adapter native ts'" for v ts'
    by (simp add: respell_def)
  obtain a' where lk': "lookup_switch p (?f t) = (if t = adapter then Some N else lookup_switch p t)"
    using N by simp
  show ?case
  proof (cases "lookup_switch p t")
    case None
    then have ne: "t \<noteq> adapter" using A by auto
    have "?P ts" using "2.IH"(1) [OF None] "2.prems" by simp
    then show ?thesis
      unfolding rs using None ne by (simp add: scan_unregistered del: scan.simps)
  next
    case (Some a)
    define b where "b = (if t = adapter then N else a)"
    have lb: "lookup_switch p (?f t) = Some b"
      using N Some by (simp add: b_def)
    have ab: "is_flag b = is_flag a" "bad_choices b vs = bad_choices a vs"
      "apply_action b vs ns = apply_action a vs ns" for vs ns
      using same A Some by (auto simp: b_def)
    show ?thesis
    proof (cases "is_flag a")
      case True
      have "?P ts" using "2.IH"(2) [OF Some True] "2.prems" by simp
      then show ?thesis
        unfolding rs using Some True lb ab
        by (simp add: scan_flag [OF Some True] scan_flag [OF lb] del: scan.simps split: list.splits)
    next
      case False
      show ?thesis
      proof (cases ts)
        case Nil
        then show ?thesis
          unfolding rs using Some False lb ab
          by (simp add: respell_def scan_last [OF Some False] scan_last [OF lb] del: scan.simps)
      next
        case (Cons v ts')
        show ?thesis
        proof (cases "switch_like v")
          case True
          have "?P ts" using "2.IH"(3) [OF Some False Cons True] "2.prems" by simp
          moreover have "scan p (t # ts) = Missing t # scan p ts"
            unfolding Cons using Some False True by (rule scan_missing)
          moreover have "scan p (?f t # respell adapter native ts)
              = Missing (?f t) # scan p (respell adapter native ts)"
            unfolding Cons hd_rs using lb _ sl [of v, THEN iffD2, OF True]
            by (rule scan_missing) (use ab False in simp)
          ultimately show ?thesis
            unfolding rs by (simp del: scan.simps)
        next
          case nl: False
          have "?P ts'" using "2.IH"(4) [OF Some False Cons nl] "2.prems" by simp
          moreover have "scan p (t # ts) = Switch a t [v] # scan p ts'"
            unfolding Cons using Some False nl by (rule scan_value)
          moreover have "scan p (?f t # respell adapter native ts)
              = Switch b (?f t) [v] # scan p (respell adapter native ts')"
            unfolding Cons hd_rs nsl [OF nl] using lb _ nl
            by (rule scan_value) (use ab False in simp)
          ultimately show ?thesis
            unfolding rs using ab by (simp del: scan.simps split: list.splits)
        qed
      qed
    qed
  qed
qed

subsection \<open>Runs of \<open>main\<close>\<close>

lemma main_RunnerRunD:
  assumes "main basic ro OPT_NAMES cl_args = Inr (RunnerRun rc kwargs)"
  shows "\<exists>parser options step.
           make_arg_parser basic ro = Inr parser
         \<and> parse_args parser cl_args = Inr options
         \<and> get_step ro options parser cl_args = Inr step
         \<and> kwargs = ((get_runner_opt_kwargs options (OPT_NAMES rc) ++ map_of HARD_CODED_OPTS)
                       (''input_paths'' \<mapsto> PList [os_devnull]))(''steps'' \<mapsto> PSteps [step])"
  using assms
  by (auto simp: main_def bind_err_eq_Inr Let_def split: if_splits)

lemma get_step_spark_args:
  assumes "get_step ro options parser cl_args = Inr step"
  shows "spark_args_of step = get_spark_args ro parser cl_args"
proof (cases "attr options ''args''")
  case Inl
  with assms show ?thesis by (simp add: get_step_def)
next
  case args: (Inr args)
  show ?thesis
  proof (cases "attr options ''main_class''")
    case Inl
    with assms args show ?thesis by (simp add: get_step_def)
  next
    case mc: (Inr main_class)
    show ?thesis
    proof (cases "attr options ''script_or_jar''")
      case Inl
      with assms args mc show ?thesis by (simp add: get_step_def)
    next
      case sj: (Inr sj)
      show ?thesis
      proof (cases sj)
        case (PStr path)
        with assms args mc sj show ?thesis
          by (cases "last_item (split (lower path) CHR ''.'')")
             (auto simp: get_step_def Let_def split: if_splits)
      qed (use assms args mc sj in \<open>simp_all add: get_step_def\<close>)
    qed
  qed
qed

lemma example_run:
  "case main example_basic example_RUNNER_OPTS example_OPT_NAMES
          [''-r'', ''emr'', ''--master'', ''yarn'', ''--driver-memory'', ''2g'', ''job.py'', ''x''] of
     Inr (RunnerRun rc kw) \<Rightarrow>
       rc = ''emr''
       \<and> kw ''steps'' = Some (PSteps [SparkScriptStep (PList [''x'']) ''job.py'' [''--driver-memory'', ''2g'']])
       \<and> kw ''spark_master'' = None
   | _ \<Rightarrow> False"
  by code_simp

lemma example_run_obtain:
  obtains kw where
    "main example_basic example_RUNNER_OPTS example_OPT_NAMES
          [''-r'', ''emr'', ''--master'', ''yarn'', ''--driver-memory'', ''2g'', ''job.py'', ''x'']
       = Inr (RunnerRun ''emr'' kw)"
    and "kw ''steps'' = Some (PSteps [SparkScriptStep (PList [''x'']) ''job.py'' [''--driver-memory'', ''2g'']])"
    and "kw ''spark_master'' = None"
  using example_run by (auto split: sum.splits outcome.splits)

lemma example_parser_built:
  "make_arg_parser example_basic example_RUNNER_OPTS = Inr (built_parser example_basic example_RUNNER_OPTS)"
proof -
  have "case make_arg_parser example_basic example_RUNNER_OPTS of Inl _ \<Rightarrow> False | Inr _ \<Rightarrow> True"
    by code_simp
  then show ?thesis
    by (auto simp: built_parser_def split: sum.splits)
qed

lemma plain_parser_built:
  "make_arg_parser example_basic [] = Inr (built_parser example_basic [])"
proof -
  have "case make_arg_parser example_basic [] of Inl _ \<Rightarrow> False | Inr _ \<Rightarrow> True"
    by code_simp
  then show ?thesis
    by (auto simp: built_parser_def split: sum.splits)
qed

section \<open>The claims\<close>


text \<open>
  C5. For every target path: when its lower-cased form ends in \<^verbatim>\<open>.jar\<close>, the step is a
  \<^verbatim>\<open>SparkJarStep\<close> whose main class is the \<^verbatim>\<open>main_class\<close> option; otherwise, when the
  extension of the lower-cased path starts with \<^verbatim>\<open>py\<close>, the step is a
  \<^verbatim>\<open>SparkScriptStep\<close>; otherwise building the step fails with a \<^verbatim>\<open>ValueError\<close> whose message
  starts with the path.
\<close>

theorem get_step_classification:
  assumes "options ''args'' = Some args"
    and "options ''main_class'' = Some main_class"
    and "options ''script_or_jar'' = Some (PStr path)"
  shows "get_step ro options parser cl_args =
     (if suffix ''.jar'' (lower path) then
        Inr (SparkJarStep args path main_class (get_spark_args ro parser cl_args))
      else if prefix ''py'' (extension (lower path)) then
        Inr (SparkScriptStep args path (get_spark_args ro parser cl_args))
      else Inl (ValueError (path @ '' appears not to be a JAR or Python script'')))"
proof -
  have "last_item (split (lower path) CHR ''.'') = Some (extension (lower path))"
    by (simp add: last_item_last split_not_Nil last_split extension_def)
  then show ?thesis
    using assms by (simp add: get_step_def endswith_suffix startswith_prefix)
qed

text \<open>
  The three paths of the specification: \<^verbatim>\<open>job.py\<close> gives a script step, \<^verbatim>\<open>App.jar\<close> a jar
  step with the main class of the options, \<^verbatim>\<open>data.txt\<close> the error.
\<close>

theorem get_step_classification_witness:
  "get_step [] [''args'' \<mapsto> PList [], ''main_class'' \<mapsto> PStr ''Main'', ''script_or_jar'' \<mapsto> PStr ''job.py''] [] []
     = Inr (SparkScriptStep (PList []) ''job.py'' [])
   \<and> get_step [] [''args'' \<mapsto> PList [], ''main_class'' \<mapsto> PStr ''Main'', ''script_or_jar'' \<mapsto> PStr ''App.jar''] [] []
     = Inr (SparkJarStep (PList []) ''App.jar'' (PStr ''Main'') [])
   \<and> get_step [] [''args'' \<mapsto> PList [], ''main_class'' \<mapsto> PStr ''Main'', ''script_or_jar'' \<mapsto> PStr ''data.txt''] [] []
     = Inl (ValueError ''data.txt appears not to be a JAR or Python script'')"
proof -
  let ?opts = "\<lambda>path. [''args'' \<mapsto> PList [], ''main_class'' \<mapsto> PStr ''Main'', ''script_or_jar'' \<mapsto> PStr path]"
  have a: "?opts path ''args'' = Some (PList [])" for path by simp
  have m: "?opts path ''main_class'' = Some (PStr ''Main'')" for path by simp
  have s: "?opts path ''script_or_jar'' = Some (PStr path)" for path by simp
  have g: "get_spark_args [] [] [] = []"
    by (simp add: get_spark_args_def parse_raw_args_def)
  show ?thesis
    using get_step_classification [where options = "?opts ''job.py''" and ro = "[]" and parser = "[]" and cl_args = "[]", OF a m s]
      get_step_classification [where options = "?opts ''App.jar''" and ro = "[]" and parser = "[]" and cl_args = "[]", OF a m s]
      get_step_classification [where options = "?opts ''data.txt''" and ro = "[]" and parser = "[]" and cl_args = "[]", OF a m s]
    by (simp add: g suffix_to_prefix extension_def lower_def lower_char_def)
qed

text \<open>
  C10. For every target path without a dot, \<^verbatim>\<open>split('.')\<close> returns the whole name as its
  only piece, so the \<^verbatim>\<open>py\<close> test reads the start of the whole lower-cased name: such a
  path is a script step exactly when it starts with \<^verbatim>\<open>py\<close> in any letter case, and is never
  a jar step.
\<close>

theorem dotless_path_whole_name:
  assumes "options ''args'' = Some args"
    and "options ''main_class'' = Some main_class"
    and "options ''script_or_jar'' = Some (PStr path)"
    and "CHR ''.'' \<notin> set path"
  shows "split (lower path) CHR ''.'' = [lower path] \<and>
     get_step ro options parser cl_args =
       (if startswith (lower path) ''py'' then
          Inr (SparkScriptStep args path (get_spark_args ro parser cl_args))
        else Inl (ValueError (path @ '' appears not to be a JAR or Python script'')))"
proof -
  have nodot: "CHR ''.'' \<notin> set (lower path)"
    using assms(4) by (simp add: lower_dotless)
  then have sp: "split (lower path) CHR ''.'' = [lower path]"
    by (rule split_without_sep)
  have "\<not> suffix ''.jar'' (lower path)"
  proof
    assume "suffix ''.jar'' (lower path)"
    then have "set ''.jar'' \<subseteq> set (lower path)"
      by (rule set_mono_suffix)
    with nodot show False by simp
  qed
  then have "\<not> endswith (lower path) ''.jar''"
    by (simp add: endswith_suffix)
  then show ?thesis
    using assms(1-3) sp by (simp add: get_step_def)
qed

theorem dotless_path_whole_name_witness:
  "CHR ''.'' \<notin> set ''pyspark_job'' \<and>
   get_step [] [''args'' \<mapsto> PList [], ''main_class'' \<mapsto> PNone, ''script_or_jar'' \<mapsto> PStr ''pyspark_job''] [] []
     = Inr (SparkScriptStep (PList []) ''pyspark_job'' [])"
proof -
  let ?opts = "[''args'' \<mapsto> PList [], ''main_class'' \<mapsto> PNone, ''script_or_jar'' \<mapsto> PStr ''pyspark_job'']"
  have a: "?opts ''args'' = Some (PList [])" by simp
  have m: "?opts ''main_class'' = Some PNone" by simp
  have s: "?opts ''script_or_jar'' = Some (PStr ''pyspark_job'')" by simp
  have d: "CHR ''.'' \<notin> set ''pyspark_job''" by simp
  have g: "get_spark_args [] [] [] = []"
    by (simp add: get_spark_args_def parse_raw_args_def)
  show ?thesis
    using dotless_path_whole_name [where options = "?opts" and ro = "[]" and parser = "[]" and cl_args = "[]", OF a m s d]
    by (simp add: g startswith_def lower_def lower_char_def)
qed



text \<open>
  C4, as stated, fails: with \<^verbatim>\<open>spark_master\<close> in the runner table and a backend that does
  not declare it, \<^verbatim>\<open>spark_master\<close> is a known switch-bearing name absent from the backend's
  declared set, yet it is not a forward option, and the forward class differs from the
  backend-relative one.
\<close>

theorem forward_class_not_backend_relative:
  "''spark_master'' \<in> known_switch_names
   \<and> ''spark_master'' \<notin> example_OPT_NAMES ''emr''
   \<and> ''spark_master'' \<notin> SPARK_ARG_OPT_NAMES example_RUNNER_OPTS
   \<and> SPARK_ARG_OPT_NAMES example_RUNNER_OPTS \<noteq> forward_class_of_backend example_OPT_NAMES ''emr''"
proof -
  have k: "''spark_master'' \<in> known_switch_names"
    by (simp add: known_switch_names_def SPARK_SUBMIT_SWITCHES_def)
  have e: "''spark_master'' \<notin> example_OPT_NAMES ''emr''"
    by (simp add: example_OPT_NAMES_def)
  have n: "''spark_master'' \<notin> SPARK_ARG_OPT_NAMES example_RUNNER_OPTS"
    by (simp add: SPARK_ARG_OPT_NAMES_def example_RUNNER_OPTS_def)
  have "''spark_master'' \<in> forward_class_of_backend example_OPT_NAMES ''emr''"
    using k e by (simp add: forward_class_of_backend_def)
  with n have "SPARK_ARG_OPT_NAMES example_RUNNER_OPTS \<noteq> forward_class_of_backend example_OPT_NAMES ''emr''"
    by blast
  with k e n show ?thesis by blast
qed

text \<open>
  C4, amended. The forward class is the known switch-bearing names minus the keys of the
  whole runner table minus the step-only names; it does not depend on the selected backend.
  In every run that reaches the runner, whatever backend is selected and whatever names it
  declares, the step carries exactly the switch occurrences whose destination is in that
  class.
\<close>

theorem forward_class_is_global:
  "(n \<in> SPARK_ARG_OPT_NAMES ro \<longleftrightarrow>
      n \<in> known_switch_names \<and> n \<notin> set (map fst ro) \<and> n \<notin> STEP_OPT_NAMES)
   \<and> (main basic ro OPT_NAMES cl_args = Inr (RunnerRun rc kwargs) \<longrightarrow>
        (\<exists>parser step. make_arg_parser basic ro = Inr parser
           \<and> kwargs ''steps'' = Some (PSteps [step])
           \<and> spark_args_of step =
               concat (map (\<lambda>(dest, option_string, args). option_string # args)
                 (filter (\<lambda>(dest, option_string, args).
                            dest \<in> known_switch_names \<and> dest \<notin> set (map fst ro)
                            \<and> dest \<notin> STEP_OPT_NAMES)
                    (parse_raw_args parser cl_args)))))"
proof -
  have cls: "n \<in> SPARK_ARG_OPT_NAMES ro \<longleftrightarrow>
      n \<in> known_switch_names \<and> n \<notin> set (map fst ro) \<and> n \<notin> STEP_OPT_NAMES" for n
    by (auto simp: SPARK_ARG_OPT_NAMES_def known_switch_names_def)
  have run: "\<exists>parser step. make_arg_parser basic ro = Inr parser
           \<and> kwargs ''steps'' = Some (PSteps [step])
           \<and> spark_args_of step =
               concat (map (\<lambda>(dest, option_string, args). option_string # args)
                 (filter (\<lambda>(dest, option_string, args).
                            dest \<in> known_switch_names \<and> dest \<notin> set (map fst ro)
                            \<and> dest \<notin> STEP_OPT_NAMES)
                    (parse_raw_args parser cl_args)))"
    if m: "main basic ro OPT_NAMES cl_args = Inr (RunnerRun rc kwargs)"
  proof -
    from main_RunnerRunD [OF m] obtain parser options step where
      p: "make_arg_parser basic ro = Inr parser"
      and g: "get_step ro options parser cl_args = Inr step"
      and kw: "kwargs = ((get_runner_opt_kwargs options (OPT_NAMES rc) ++ map_of HARD_CODED_OPTS)
                       (''input_paths'' \<mapsto> PList [os_devnull]))(''steps'' \<mapsto> PSteps [step])"
      by blast
    have "spark_args_of step = get_spark_args ro parser cl_args"
      using g by (rule get_step_spark_args)
    also have "\<dots> = concat (map (\<lambda>(dest, option_string, args). option_string # args)
                 (filter (\<lambda>(dest, option_string, args). dest \<in> SPARK_ARG_OPT_NAMES ro)
                    (parse_raw_args parser cl_args)))"
      by (simp add: get_spark_args_def fold_forward)
    finally have "spark_args_of step =
               concat (map (\<lambda>(dest, option_string, args). option_string # args)
                 (filter (\<lambda>(dest, option_string, args).
                            dest \<in> known_switch_names \<and> dest \<notin> set (map fst ro)
                            \<and> dest \<notin> STEP_OPT_NAMES)
                    (parse_raw_args parser cl_args)))"
      by (simp add: cls)
    moreover have "kwargs ''steps'' = Some (PSteps [step])"
      unfolding kw by simp
    ultimately show ?thesis using p by blast
  qed
  show ?thesis using cls run by blast
qed

theorem forward_class_is_global_witness:
  "''driver_memory'' \<in> SPARK_ARG_OPT_NAMES example_RUNNER_OPTS
   \<and> ''spark_master'' \<notin> SPARK_ARG_OPT_NAMES example_RUNNER_OPTS
   \<and> ''spark_master'' \<notin> example_OPT_NAMES ''emr''
   \<and> (\<exists>kwargs step. main example_basic example_RUNNER_OPTS example_OPT_NAMES
          [''-r'', ''emr'', ''--master'', ''yarn'', ''--driver-memory'', ''2g'', ''job.py'', ''x'']
        = Inr (RunnerRun ''emr'' kwargs)
      \<and> kwargs ''steps'' = Some (PSteps [step])
      \<and> kwargs ''spark_master'' = None
      \<and> spark_args_of step = [''--driver-memory'', ''2g''])"
proof -
  obtain kw where m: "main example_basic example_RUNNER_OPTS example_OPT_NAMES
          [''-r'', ''emr'', ''--master'', ''yarn'', ''--driver-memory'', ''2g'', ''job.py'', ''x'']
       = Inr (RunnerRun ''emr'' kw)"
    and st: "kw ''steps'' = Some (PSteps [SparkScriptStep (PList [''x'']) ''job.py'' [''--driver-memory'', ''2g'']])"
    and sm: "kw ''spark_master'' = None"
    by (rule example_run_obtain)
  have k1: "''driver_memory'' \<in> known_switch_names \<and> ''driver_memory'' \<notin> set (map fst example_RUNNER_OPTS)
      \<and> ''driver_memory'' \<notin> STEP_OPT_NAMES"
    by (simp add: known_switch_names_def SPARK_SUBMIT_SWITCHES_def example_RUNNER_OPTS_def STEP_OPT_NAMES_def)
  have k2: "''spark_master'' \<in> set (map fst example_RUNNER_OPTS)"
    by (simp add: example_RUNNER_OPTS_def)
  have k3: "''spark_master'' \<notin> example_OPT_NAMES ''emr''"
    by (simp add: example_OPT_NAMES_def)
  note g1 = forward_class_is_global [where n = "''driver_memory''" and ro = example_RUNNER_OPTS
      and basic = example_basic and OPT_NAMES = example_OPT_NAMES and rc = "''emr''" and kwargs = kw
      and cl_args = "[''-r'', ''emr'', ''--master'', ''yarn'', ''--driver-memory'', ''2g'', ''job.py'', ''x'']"]
  note g2 = forward_class_is_global [where n = "''spark_master''" and ro = example_RUNNER_OPTS
      and basic = example_basic and OPT_NAMES = example_OPT_NAMES and rc = "''emr''" and kwargs = kw
      and cl_args = "[''-r'', ''emr'', ''--master'', ''yarn'', ''--driver-memory'', ''2g'', ''job.py'', ''x'']"]
  have a: "''driver_memory'' \<in> SPARK_ARG_OPT_NAMES example_RUNNER_OPTS"
    using g1 k1 by blast
  have b: "''spark_master'' \<notin> SPARK_ARG_OPT_NAMES example_RUNNER_OPTS"
    using g2 k2 by blast
  from g1 m obtain step where "kw ''steps'' = Some (PSteps [step])"
    by blast
  with st have "kw ''steps'' = Some (PSteps [step]) \<and> spark_args_of step = [''--driver-memory'', ''2g'']"
    by auto
  with m sm a b k3 show ?thesis by blast
qed

text \<open>
  C6. When the command line parses, gives no target (the \<^verbatim>\<open>script_or_jar\<close> attribute is
  \<^verbatim>\<open>None\<close> or empty) and no help flag, and the backend alias is absent or eligible, \<open>main\<close>
  prints the basic help and exits with status 0: no usage error, no other error, and the
  runner is not instantiated.
\<close>

theorem missing_target_shows_basic_help:
  assumes "make_arg_parser basic ro = Inr parser"
    and "parse_args parser cl_args = Inr options"
    and "options ''script_or_jar'' = Some target" and "\<not> truthy target"
    and "options ''help'' = Some help" and "\<not> truthy help"
    and "options ''runner'' = Some runner"
    and "\<not> truthy runner \<or> runner \<in> PStr ` set SPARK_RUNNERS"
    and "options ''deprecated'' = Some deprecated"
    and "make_basic_help_parser basic ro (truthy deprecated) = Inr help_parser"
  shows "main basic ro OPT_NAMES cl_args =
           Inr (SysExit 0 (BasicHelp help_parser (truthy deprecated)))"
proof -
  obtain rc where rc: "runner_class (if truthy runner then runner else PStr DEFAULT_RUNNER) = Inr rc"
    using assms(8) by (auto simp: runner_class_def DEFAULT_RUNNER_def SPARK_RUNNERS_def)
  have ph: "print_help basic ro options (OPT_NAMES rc) = Inr (BasicHelp help_parser (truthy deprecated))"
    using assms(5,6,9,10) by (simp add: print_help_def print_basic_help_def)
  show ?thesis
    using assms(1-7) rc ph by (simp add: main_def)
qed

theorem missing_target_shows_basic_help_witness:
  "\<exists>help_parser. main example_basic example_RUNNER_OPTS example_OPT_NAMES [''-r'', ''emr'', ''-v'']
      = Inr (SysExit 0 (BasicHelp help_parser False))"
proof -
  have "case make_arg_parser example_basic example_RUNNER_OPTS of
          Inl _ \<Rightarrow> False
        | Inr p \<Rightarrow> (case parse_args p [''-r'', ''emr'', ''-v''] of
            Inl _ \<Rightarrow> False
          | Inr opts \<Rightarrow> opts ''script_or_jar'' = Some PNone \<and> opts ''help'' = Some (PBool False)
              \<and> opts ''runner'' = Some (PStr ''emr'') \<and> opts ''deprecated'' = Some (PBool False))"
    by code_simp
  then obtain p opts where p: "make_arg_parser example_basic example_RUNNER_OPTS = Inr p"
    and o: "parse_args p [''-r'', ''emr'', ''-v''] = Inr opts"
    and t: "opts ''script_or_jar'' = Some PNone" and h: "opts ''help'' = Some (PBool False)"
    and r: "opts ''runner'' = Some (PStr ''emr'')" and d: "opts ''deprecated'' = Some (PBool False)"
    by (auto split: sum.splits)
  have "case make_basic_help_parser example_basic example_RUNNER_OPTS False of
          Inl _ \<Rightarrow> False | Inr _ \<Rightarrow> True"
    by code_simp
  then obtain hp where hp: "make_basic_help_parser example_basic example_RUNNER_OPTS (truthy (PBool False)) = Inr hp"
    by (auto split: sum.splits)
  have e: "\<not> truthy (PStr ''emr'') \<or> PStr ''emr'' \<in> PStr ` set SPARK_RUNNERS"
    by (simp add: SPARK_RUNNERS_def)
  from missing_target_shows_basic_help [OF p o t _ h _ r e d hp, of example_OPT_NAMES]
  show ?thesis by auto
qed

text \<open>
  C9. For every run that reaches the runner, the keyword arguments handed to it hold
  \<^verbatim>\<open>check_input_paths = False\<close>, \<^verbatim>\<open>output_dir = None\<close> and \<^verbatim>\<open>input_paths = [os.devnull]\<close>,
  whatever the command line and whatever typed values the options hold for these keys.
\<close>

theorem hard_coded_config:
  assumes "main basic ro OPT_NAMES cl_args = Inr (RunnerRun rc kwargs)"
  shows "kwargs ''check_input_paths'' = Some (PBool False)
       \<and> kwargs ''output_dir'' = Some PNone
       \<and> kwargs ''input_paths'' = Some (PList [os_devnull])"
proof -
  from main_RunnerRunD [OF assms] obtain options step where
    kw: "kwargs = ((get_runner_opt_kwargs options (OPT_NAMES rc) ++ map_of HARD_CODED_OPTS)
                       (''input_paths'' \<mapsto> PList [os_devnull]))(''steps'' \<mapsto> PSteps [step])"
    by blast
  show ?thesis
    unfolding kw by (simp add: HARD_CODED_OPTS_def map_add_def)
qed

theorem hard_coded_config_witness:
  "\<exists>kwargs. main example_basic example_RUNNER_OPTS example_OPT_NAMES
          [''-r'', ''emr'', ''--master'', ''yarn'', ''--driver-memory'', ''2g'', ''job.py'', ''x'']
        = Inr (RunnerRun ''emr'' kwargs)
      \<and> kwargs ''check_input_paths'' = Some (PBool False)
      \<and> kwargs ''output_dir'' = Some PNone
      \<and> kwargs ''input_paths'' = Some (PList [''/dev/null''])"
proof -
  obtain kw where m: "main example_basic example_RUNNER_OPTS example_OPT_NAMES
          [''-r'', ''emr'', ''--master'', ''yarn'', ''--driver-memory'', ''2g'', ''job.py'', ''x'']
       = Inr (RunnerRun ''emr'' kw)"
    by (rule example_run_obtain)
  from hard_coded_config [OF m] m show ?thesis
    by (auto simp: os_devnull_def)
qed










end
